theory Spec2Isabelle
  imports Complex_Main
begin

section \<open>JavaScript strings\<close>

text \<open>
  A JavaScript string is a sequence of UTF-16 code units. The Cyrillic letters of the
  layout table lie outside the 8-bit \<^typ>\<open>char\<close>, so a string is modelled as the list of its
  code units, each a natural number. \<open>js\<close> embeds an ASCII literal.
\<close>

type_synonym jschar = nat
type_synonym jsstring = "jschar list"

definition js :: "string \<Rightarrow> jsstring" where
  "js s = map of_char s"

text \<open>\<open>s.startsWith(p)\<close>, \<open>s.includes(p)\<close>, \<open>s.slice(0, -1)\<close> and \<open>s.slice(n)\<close>.\<close>

definition startsWith :: "jsstring \<Rightarrow> jsstring \<Rightarrow> bool" where
  "startsWith s p = (take (length p) s = p)"

fun includes_str :: "jsstring \<Rightarrow> jsstring \<Rightarrow> bool" where
  "includes_str [] p = (p = [])"
| "includes_str (c # cs) p = (startsWith (c # cs) p \<or> includes_str cs p)"

definition slice_0_minus1 :: "jsstring \<Rightarrow> jsstring" where
  "slice_0_minus1 s = butlast s"

definition slice_from :: "nat \<Rightarrow> jsstring \<Rightarrow> jsstring" where
  "slice_from n s = drop n s"

text \<open>
  \<open>toUpperCase\<close> and \<open>toLowerCase\<close> are built-ins of the language, not code of the
  store. They are modelled on Basic Latin and on the Russian alphabet (U+0410 to U+044F,
  with U+0401 and U+0451), which covers every value the key translator can produce from
  a letter key; any other code unit is left as it is.
\<close>

definition toUpperCase_unit :: "jschar \<Rightarrow> jschar" where
  "toUpperCase_unit c =
     (if 97 \<le> c \<and> c \<le> 122 then c - 32
      else if 1072 \<le> c \<and> c \<le> 1103 then c - 32
      else if c = 1105 then 1025
      else c)"

definition toLowerCase_unit :: "jschar \<Rightarrow> jschar" where
  "toLowerCase_unit c =
     (if 65 \<le> c \<and> c \<le> 90 then c + 32
      else if 1040 \<le> c \<and> c \<le> 1071 then c + 32
      else if c = 1025 then 1105
      else c)"

definition toUpperCase :: "jsstring \<Rightarrow> jsstring" where
  "toUpperCase s = map toUpperCase_unit s"

definition toLowerCase :: "jsstring \<Rightarrow> jsstring" where
  "toLowerCase s = map toLowerCase_unit s"

section \<open>The keyboard store\<close>

record KeyEvent =
  vk_code :: int
  key_name :: jsstring
  timestamp :: real
  seq_num :: int

datatype TtsMessageStatus = queued | playing | completed

record TtsMessage =
  msg_id :: jsstring
  msg_text :: jsstring
  msg_timestamp :: int
  status :: TtsMessageStatus
  locked :: bool

datatype toast_type = error | warning | info

record Toast =
  toast_show :: bool
  toast_message :: jsstring
  toast_kind :: toast_type

datatype hotkey_mode = background_blocking | overlay_call

text \<open>
  The fields of the store that the operations below read or write. \<open>inputLanguage\<close>
  is declared \<open>'ru' | 'en'\<close> in the source but assigned from an unchecked backend
  string, so it stays a string here.
\<close>

record store =
  blockingEnabled :: bool
  hotkeyMode :: hotkey_mode
  capsLock :: bool
  interceptedKeys :: "KeyEvent list"
  latestKey :: "KeyEvent option"
  interceptedText :: jsstring
  lastProcessedSeqNum :: int
  fetchingKeys :: bool
  pendingTextUpdate :: jsstring
  textUpdateScheduled :: bool
  isPlaying :: bool
  continuousPlay :: bool
  inputLanguage :: jsstring
  ttsHistory :: "TtsMessage list"
  toast :: Toast

definition initial_store :: store where
  "initial_store =
     \<lparr> blockingEnabled = False, hotkeyMode = overlay_call, capsLock = False,
       interceptedKeys = [], latestKey = None, interceptedText = [],
       lastProcessedSeqNum = - 1, fetchingKeys = False, pendingTextUpdate = [],
       textUpdateScheduled = False, isPlaying = False, continuousPlay = False,
       inputLanguage = js ''en'', ttsHistory = [],
       toast = \<lparr> toast_show = False, toast_message = [], toast_kind = error \<rparr> \<rparr>"

subsection \<open>Batched text mutation\<close>

text \<open>
  \<open>scheduleTextUpdate\<close> raises the flag and registers one animation-frame callback;
  \<open>flushTextUpdate\<close> is that callback. The callback exists exactly while the flag is
  set, so the flag stands for the registered callback.
\<close>

definition scheduleTextUpdate :: "store \<Rightarrow> store" where
  "scheduleTextUpdate s =
     (if textUpdateScheduled s then s else s\<lparr>textUpdateScheduled := True\<rparr>)"

definition flushTextUpdate :: "store \<Rightarrow> store" where
  "flushTextUpdate s =
     s\<lparr> interceptedText := interceptedText s @ pendingTextUpdate s,
        pendingTextUpdate := [],
        textUpdateScheduled := False \<rparr>"

subsection \<open>Key translation\<close>

text \<open>The \<open>ruLayout\<close> table (QWERTY to the Russian layout), as code units.\<close>

definition ruLayout :: "(jschar \<times> jschar) list" where
  "ruLayout =
     [(81, 1049), (87, 1062), (69, 1059), (82, 1050), (84, 1045), (89, 1053), (85, 1043),
      (73, 1064), (79, 1065), (80, 1047),
      (65, 1060), (83, 1067), (68, 1042), (70, 1040), (71, 1055), (72, 1056), (74, 1054),
      (75, 1051), (76, 1044),
      (90, 1071), (88, 1063), (67, 1057), (86, 1052), (66, 1048), (78, 1058), (77, 1068),
      (113, 1081), (119, 1094), (101, 1091), (114, 1082), (116, 1077), (121, 1085),
      (117, 1075), (105, 1096), (111, 1097), (112, 1079),
      (97, 1092), (115, 1099), (100, 1074), (102, 1072), (103, 1087), (104, 1088),
      (106, 1086), (107, 1083), (108, 1076),
      (122, 1103), (120, 1095), (99, 1089), (118, 1084), (98, 1080), (110, 1090),
      (109, 1100)]"

text \<open>\<open>ruLayout[char] || char\<close>: every table value is a non-empty string.\<close>

definition ruLayout_or :: "jschar \<Rightarrow> jschar" where
  "ruLayout_or c = (case map_of ruLayout c of Some r \<Rightarrow> r | None \<Rightarrow> c)"

definition append_pending :: "jsstring \<Rightarrow> store \<Rightarrow> store" where
  "append_pending t s = s\<lparr>pendingTextUpdate := pendingTextUpdate s @ t\<rparr>"

definition by_layout :: "store \<Rightarrow> jsstring \<Rightarrow> jsstring \<Rightarrow> jsstring" where
  "by_layout s ru en = (if inputLanguage s = js ''ru'' then ru else en)"

definition processInterceptedKey :: "KeyEvent \<Rightarrow> store \<Rightarrow> store" where
  "processInterceptedKey key s =
     (let name = key_name key in
      if includes_str name (js ''Win+Esc'') then s
      else if name = js ''Backspace'' then
        s\<lparr> interceptedText := slice_0_minus1 (interceptedText s),
           pendingTextUpdate := [] \<rparr>
      else if name = js ''Enter'' then append_pending [10] s
      else if name = js ''Space'' then append_pending [32] s
      else if name = js ''Tab'' then append_pending [9] s
      else if name = js ''Comma'' then append_pending (by_layout s [1073] [44]) s
      else if name = js ''Period'' then append_pending (by_layout s [1102] [46]) s
      else if name = js ''Slash'' then append_pending (by_layout s [46] [47]) s
      else if name = js ''Semicolon'' then append_pending (by_layout s [1078] [59]) s
      else if name = js ''Quote'' then append_pending (by_layout s [1101] [39]) s
      else if name = js ''Backtick'' then append_pending (by_layout s [1105] [96]) s
      else if name = js ''Left Bracket'' then append_pending (by_layout s [1093] [91]) s
      else if name = js ''Right Bracket'' then append_pending (by_layout s [1098] [93]) s
      else if name = js ''Backslash'' then append_pending (by_layout s [1105] [92]) s
      else if name = js ''Minus'' then append_pending (by_layout s [45] [45]) s
      else if name = js ''Equals'' then append_pending (by_layout s [61] [61]) s
      else if startsWith name (js ''Digit '') then append_pending (slice_from 6 name) s
      else if length name = 1 then
        (let char = name;
             result = (if inputLanguage s = js ''ru'' then map ruLayout_or char else char)
         in if capsLock s then append_pending (toUpperCase result) s
            else append_pending (toLowerCase result) s)
      else s)"

subsection \<open>Push and pull delivery of key events\<close>

text \<open>The \<open>key_intercepted\<close> listener.\<close>

definition on_key_intercepted :: "KeyEvent \<Rightarrow> store \<Rightarrow> store" where
  "on_key_intercepted key s =
     (let s1 = s\<lparr> lastProcessedSeqNum := max (lastProcessedSeqNum s) (seq_num key) \<rparr>;
          s2 = s1\<lparr> interceptedKeys := interceptedKeys s1 @ [key], latestKey := Some key \<rparr>
      in if blockingEnabled s2 then scheduleTextUpdate (processInterceptedKey key s2)
         else s2)"

text \<open>
  \<open>fetchKeys\<close> suspends once, at the \<open>await\<close> of the backend call. The part before the
  suspension is \<open>fetchKeys_begin\<close>: \<open>None\<close> when a pull is already in flight (the call
  returns at once), otherwise the flag is raised and the request's \<open>afterSeqNum\<close>
  argument is returned. The part after it is \<open>fetchKeys_resume\<close>, which receives the
  outcome of the call: \<open>Inl\<close> a rejection, \<open>Inr\<close> the returned keys.
\<close>

definition fetchKeys_begin :: "store \<Rightarrow> (store \<times> int option) option" where
  "fetchKeys_begin s =
     (if fetchingKeys s then None
      else Some (s\<lparr>fetchingKeys := True\<rparr>,
                 if lastProcessedSeqNum s \<ge> 0 then Some (lastProcessedSeqNum s) else None))"

definition process_all :: "KeyEvent list \<Rightarrow> store \<Rightarrow> store" where
  "process_all ks s = foldl (\<lambda>st k. processInterceptedKey k st) s ks"

definition fetchKeys_resume :: "jsstring + KeyEvent list \<Rightarrow> store \<Rightarrow> store" where
  "fetchKeys_resume response s =
     (case response of
        Inl err \<Rightarrow> s\<lparr>fetchingKeys := False\<rparr>
      | Inr keys \<Rightarrow>
          (if blockingEnabled s \<and> length keys > 0 then
             (let sortedKeys = sort_key seq_num keys;
                  s1 = process_all sortedKeys s;
                  newLastSeq = Max (set (map seq_num sortedKeys));
                  s2 = s1\<lparr>lastProcessedSeqNum := newLastSeq\<rparr>
              in (scheduleTextUpdate s2)\<lparr>fetchingKeys := False\<rparr>)
           else s\<lparr>fetchingKeys := False\<rparr>))"

text \<open>
  An interleaving of the two channels is a list of deliveries applied in order: a pushed
  event, the start of a pull, the completion of a pull with the backend's answer, and an
  animation frame (which runs the scheduled flush, if any).
\<close>

datatype delivery =
    Push KeyEvent
  | PullBegin
  | PullResume "jsstring + KeyEvent list"
  | Frame

fun deliver :: "store \<Rightarrow> delivery \<Rightarrow> store" where
  "deliver s (Push key) = on_key_intercepted key s"
| "deliver s PullBegin = (case fetchKeys_begin s of None \<Rightarrow> s | Some (s', _) \<Rightarrow> s')"
| "deliver s (PullResume response) = fetchKeys_resume response s"
| "deliver s Frame = (if textUpdateScheduled s then flushTextUpdate s else s)"

definition run :: "delivery list \<Rightarrow> store \<Rightarrow> store" where
  "run ds s = foldl deliver s ds"

text \<open>
  The reference the delivery is compared with: every distinct event processed once, in
  ascending \<open>seq_num\<close> order, then flushed.
\<close>

definition once_in_seq_order :: "KeyEvent list \<Rightarrow> store \<Rightarrow> jsstring" where
  "once_in_seq_order events s =
     interceptedText (flushTextUpdate (process_all (sort_key seq_num (remdups events)) s))"

text \<open>The text the field will show once the pending buffer has been flushed.\<close>

definition intended_text :: "store \<Rightarrow> jsstring" where
  "intended_text s = interceptedText s @ pendingTextUpdate s"

definition is_letter :: "jschar \<Rightarrow> bool" where
  "is_letter c = ((65 \<le> c \<and> c \<le> 90) \<or> (97 \<le> c \<and> c \<le> 122))"

definition caps_fold :: "bool \<Rightarrow> jschar \<Rightarrow> jschar" where
  "caps_fold caps c = (if caps then toUpperCase_unit c else toLowerCase_unit c)"

definition sample_key :: "int \<Rightarrow> jsstring \<Rightarrow> KeyEvent" where
  "sample_key n name = \<lparr> vk_code = 0, key_name = name, timestamp = 0, seq_num = n \<rparr>"

definition blocking_store :: store where
  "blocking_store = initial_store\<lparr>blockingEnabled := True\<rparr>"

section \<open>TTS queue and history\<close>

text \<open>\<open>Array.prototype.findIndex\<close>, with \<open>None\<close> for \<open>-1\<close>; \<open>find\<close> is \<^const>\<open>List.find\<close>.\<close>

fun findIndex :: "('a \<Rightarrow> bool) \<Rightarrow> 'a list \<Rightarrow> nat option" where
  "findIndex P [] = None"
| "findIndex P (x # xs) = (if P x then Some 0 else map_option Suc (findIndex P xs))"

definition showToast :: "jsstring \<Rightarrow> toast_type \<Rightarrow> store \<Rightarrow> store" where
  "showToast message kind s =
     s\<lparr>toast := \<lparr> toast_show = True, toast_message = message, toast_kind = kind \<rparr>\<rparr>"

text \<open>The timer that \<open>showToast\<close> starts when its duration is positive.\<close>

definition toast_timeout :: "store \<Rightarrow> store" where
  "toast_timeout s = s\<lparr>toast := (toast s)\<lparr>toast_show := False\<rparr>\<rparr>"

definition hideToast :: "store \<Rightarrow> store" where
  "hideToast s = s\<lparr>toast := (toast s)\<lparr>toast_show := False\<rparr>\<rparr>"

subsection \<open>Status events\<close>

text \<open>
  The second predicate of \<open>findMessage\<close>: a provisional id and a status of \<open>queued\<close>
  or \<open>playing\<close>.
\<close>

definition is_temp_pending :: "TtsMessage \<Rightarrow> bool" where
  "is_temp_pending m =
     (startsWith (msg_id m) (js ''temp-'') \<and> (status m = queued \<or> status m = playing))"

text \<open>
  \<open>findMessage\<close> returns a reference into the history and may overwrite the id of the
  entry it falls back to. The model returns the history after that write, the position
  of the entry found (\<open>None\<close> for \<open>null\<close>) and \<open>needsIdUpdate\<close>.
\<close>

definition findMessage ::
  "jsstring \<Rightarrow> TtsMessage list \<Rightarrow> TtsMessage list \<times> nat option \<times> bool" where
  "findMessage i h =
     (case findIndex (\<lambda>m. msg_id m = i) h of
        Some n \<Rightarrow> (h, Some n, False)
      | None \<Rightarrow>
          (case findIndex is_temp_pending h of
             Some n \<Rightarrow> (h[n := (h ! n)\<lparr>msg_id := i\<rparr>], Some n, True)
           | None \<Rightarrow> (h, None, False)))"

text \<open>\<open>if (msg) { msg.status = st }\<close> on the result of \<open>findMessage\<close>.\<close>

definition assign_status ::
  "TtsMessageStatus \<Rightarrow> TtsMessage list \<times> nat option \<times> bool \<Rightarrow> TtsMessage list" where
  "assign_status st r =
     (case r of
        (h, Some n, _) \<Rightarrow> h[n := (h ! n)\<lparr>status := st\<rparr>]
      | (h, None, _) \<Rightarrow> h)"

definition on_tts_started :: "jsstring \<Rightarrow> store \<Rightarrow> store" where
  "on_tts_started i s = s\<lparr>ttsHistory := assign_status playing (findMessage i (ttsHistory s))\<rparr>"

definition on_tts_completed :: "jsstring \<Rightarrow> store \<Rightarrow> store" where
  "on_tts_completed i s =
     s\<lparr>ttsHistory := assign_status completed (findMessage i (ttsHistory s))\<rparr>"

definition on_tts_failed :: "jsstring \<Rightarrow> jsstring \<Rightarrow> store \<Rightarrow> store" where
  "on_tts_failed i err s =
     showToast err error
       (s\<lparr>ttsHistory := assign_status completed (findMessage i (ttsHistory s))\<rparr>)"

definition on_tts_cancelled :: "jsstring \<Rightarrow> store \<Rightarrow> store" where
  "on_tts_cancelled i s =
     s\<lparr>ttsHistory := assign_status completed (findMessage i (ttsHistory s))\<rparr>"

subsection \<open>Enqueue with an optimistic entry\<close>

text \<open>Decimal rendering of \<open>Date.now()\<close> inside the template literal.\<close>

fun decimal :: "nat \<Rightarrow> jsstring" where
  "decimal n = (if n < 10 then [48 + n] else decimal (n div 10) @ [48 + n mod 10])"

declare decimal.simps [simp del]

text \<open>
  \<open>now\<close> is the value of \<open>Date.now()\<close> and \<open>rnd\<close> the string
  \<open>Math.random().toString(36).slice(2, 9)\<close>; both are inputs of the model. The two
  reads of the clock in \<open>speakTextWithHistory\<close> are taken to return the same value.
\<close>

definition tempId_of :: "nat \<Rightarrow> jsstring \<Rightarrow> jsstring" where
  "tempId_of now rnd = js ''temp-'' @ decimal now @ js ''-'' @ rnd"

text \<open>
  The synchronous part of \<open>speakTextWithHistory\<close>: the new store, the provisional id and
  the text passed to \<open>enqueue_tts\<close>. The two continuations of the promise follow.
\<close>

definition speakTextWithHistory ::
  "jsstring \<Rightarrow> nat \<Rightarrow> jsstring \<Rightarrow> store \<Rightarrow> store \<times> jsstring \<times> jsstring" where
  "speakTextWithHistory text now rnd s =
     (let tempId = tempId_of now rnd;
          timestamp = int (now div 1000);
          tempMessage = \<lparr> msg_id = tempId, msg_text = text, msg_timestamp = timestamp,
                          status = queued, locked = False \<rparr>
      in (s\<lparr>ttsHistory := tempMessage # ttsHistory s\<rparr>, tempId, text))"

definition enqueue_resolved :: "jsstring \<Rightarrow> jsstring \<Rightarrow> store \<Rightarrow> store" where
  "enqueue_resolved tempId realId s =
     (case findIndex (\<lambda>m. msg_id m = tempId) (ttsHistory s) of
        Some msgIndex \<Rightarrow>
          s\<lparr>ttsHistory := (ttsHistory s)[msgIndex := (ttsHistory s ! msgIndex)\<lparr>msg_id := realId\<rparr>]\<rparr>
      | None \<Rightarrow> s)"

definition enqueue_rejected :: "jsstring \<Rightarrow> jsstring \<Rightarrow> store \<Rightarrow> store" where
  "enqueue_rejected tempId err s =
     showToast err error
       (s\<lparr>ttsHistory := filter (\<lambda>m. msg_id m \<noteq> tempId) (ttsHistory s)\<rparr>)"

subsection \<open>History refresh\<close>

text \<open>
  \<open>fetchTtsHistory\<close> after its \<open>await\<close>: the map of server messages, the loop over the
  server list and the loop over the local list, each \<open>push\<close> appending at the back.
\<close>

definition serverMap_of :: "TtsMessage list \<Rightarrow> (jsstring \<rightharpoonup> TtsMessage)" where
  "serverMap_of serverHistory =
     foldl (\<lambda>m msg. m(msg_id msg \<mapsto> msg)) Map.empty serverHistory"

definition merge_server :: "TtsMessage list \<Rightarrow> TtsMessage list \<Rightarrow> TtsMessage list" where
  "merge_server localHistory serverHistory =
     foldl (\<lambda>mergedHistory serverMsg.
              (case find (\<lambda>m. msg_id m = msg_id serverMsg) localHistory of
                 Some localMsg \<Rightarrow> mergedHistory @ [serverMsg\<lparr>status := status localMsg\<rparr>]
               | None \<Rightarrow> mergedHistory @ [serverMsg]))
           [] serverHistory"

definition merge_optimistic ::
  "(jsstring \<rightharpoonup> TtsMessage) \<Rightarrow> TtsMessage list \<Rightarrow> TtsMessage list \<Rightarrow> TtsMessage list" where
  "merge_optimistic serverMap localHistory mergedHistory =
     foldl (\<lambda>merged localMsg.
              if serverMap (msg_id localMsg) = None \<and> startsWith (msg_id localMsg) (js ''temp-'')
              then merged @ [localMsg] else merged)
           mergedHistory localHistory"

definition fetchTtsHistory_resume :: "jsstring + TtsMessage list \<Rightarrow> store \<Rightarrow> store" where
  "fetchTtsHistory_resume response s =
     (case response of
        Inl err \<Rightarrow> s
      | Inr serverHistory \<Rightarrow>
          s\<lparr>ttsHistory :=
              merge_optimistic (serverMap_of serverHistory) (ttsHistory s)
                (merge_server (ttsHistory s) serverHistory)\<rparr>)"

subsection \<open>Sequences of history operations\<close>

datatype tts_op =
    TtsStarted jsstring
  | TtsCompleted jsstring
  | TtsFailed jsstring jsstring
  | TtsCancelled jsstring
  | Speak jsstring nat jsstring
  | EnqueueResolved jsstring jsstring
  | EnqueueRejected jsstring jsstring
  | FetchHistory "jsstring + TtsMessage list"

fun apply_op :: "store \<Rightarrow> tts_op \<Rightarrow> store" where
  "apply_op s (TtsStarted i) = on_tts_started i s"
| "apply_op s (TtsCompleted i) = on_tts_completed i s"
| "apply_op s (TtsFailed i err) = on_tts_failed i err s"
| "apply_op s (TtsCancelled i) = on_tts_cancelled i s"
| "apply_op s (Speak text now rnd) = fst (speakTextWithHistory text now rnd s)"
| "apply_op s (EnqueueResolved tempId realId) = enqueue_resolved tempId realId s"
| "apply_op s (EnqueueRejected tempId err) = enqueue_rejected tempId err s"
| "apply_op s (FetchHistory response) = fetchTtsHistory_resume response s"

definition playing_count :: "TtsMessage list \<Rightarrow> nat" where
  "playing_count h = length (filter (\<lambda>m. status m = playing) h)"

definition single_active :: "store \<Rightarrow> bool" where
  "single_active s = (playing_count (ttsHistory s) \<le> 1)"

text \<open>
  A server entry as the refresh pushes it: the local status when a local entry has the
  same id, the server's fields otherwise.
\<close>

definition with_local_status :: "TtsMessage list \<Rightarrow> TtsMessage \<Rightarrow> TtsMessage" where
  "with_local_status localHistory sm =
     (case find (\<lambda>m. msg_id m = msg_id sm) localHistory of
        Some lm \<Rightarrow> sm\<lparr>status := status lm\<rparr>
      | None \<Rightarrow> sm)"

text \<open>
  The position of the entry a status event lands on: the result of \<open>findMessage\<close>,
  by id or by its fallback.
\<close>

definition lands_on :: "jsstring \<Rightarrow> TtsMessage list \<Rightarrow> nat option" where
  "lands_on i h = fst (snd (findMessage i h))"

text \<open>The operations that never raise the number of \<open>playing\<close> entries.\<close>

fun never_raises :: "tts_op \<Rightarrow> bool" where
  "never_raises (TtsStarted i) = False"
| "never_raises (FetchHistory (Inr serverHistory)) = False"
| "never_raises _ = True"

text \<open>
  What the backend has to respect for the client to keep a single \<open>playing\<close> entry. A
  start lands on an entry while no other entry is playing (a start that lands nowhere, or
  on the entry already playing, is fine). A refreshed list brings at most one \<open>playing\<close>
  entry, counting each server entry with the local status when its id is known locally,
  together with the local provisional entries the server does not list.
\<close>

fun backend_respects :: "store \<Rightarrow> tts_op \<Rightarrow> bool" where
  "backend_respects s (TtsStarted i) =
     (case lands_on i (ttsHistory s) of
        None \<Rightarrow> True
      | Some n \<Rightarrow> playing_count (take n (ttsHistory s)) = 0 \<and>
                  playing_count (drop (Suc n) (ttsHistory s)) = 0)"
| "backend_respects s (FetchHistory (Inr serverHistory)) =
     (playing_count (map (with_local_status (ttsHistory s)) serverHistory) +
      playing_count (filter (\<lambda>lm. startsWith (msg_id lm) (js ''temp-'') \<and>
                                   msg_id lm \<notin> set (map msg_id serverHistory))
                      (ttsHistory s)) \<le> 1)"
| "backend_respects s _ = True"

fun respected_run :: "store \<Rightarrow> tts_op list \<Rightarrow> bool" where
  "respected_run s [] = True"
| "respected_run s (op # ops) = (backend_respects s op \<and> respected_run (apply_op s op) ops)"

definition run_ops :: "tts_op list \<Rightarrow> store \<Rightarrow> store" where
  "run_ops ops s = foldl apply_op s ops"




definition sample_msg :: "jsstring \<Rightarrow> TtsMessageStatus \<Rightarrow> TtsMessage" where
  "sample_msg i st =
     \<lparr> msg_id = i, msg_text = js ''hi'', msg_timestamp = 0, status = st, locked = False \<rparr>"

definition local_sample :: "TtsMessage list" where
  "local_sample = [sample_msg (js ''temp-1-x'') queued, sample_msg (js ''a'') playing,
                   sample_msg (js ''old'') completed]"

definition server_sample :: "TtsMessage list" where
  "server_sample = [sample_msg (js ''a'') queued, sample_msg (js ''b'') completed]"

definition race_history :: "TtsMessage list" where
  "race_history = [sample_msg (js ''temp-9-z'') queued, sample_msg (js ''temp-7-y'') queued,
                   sample_msg (js ''k1'') completed]"

definition queued_pair :: store where
  "queued_pair =
     initial_store\<lparr>ttsHistory := [sample_msg (js ''k2'') queued, sample_msg (js ''k1'') queued]\<rparr>"

definition playing_one :: store where
  "playing_one = initial_store\<lparr>ttsHistory := [sample_msg (js ''k1'') playing]\<rparr>"

section \<open>Overlay hotkey\<close>

record window_state =
  isFocused :: bool
  isVisible :: bool
  isMinimized :: bool

datatype window_command = ShowWindowOverlay | HideWindowAndRestoreFocus | SetFocus

definition HOTKEY_DEBOUNCE_MS :: int where
  "HOTKEY_DEBOUNCE_MS = 300"

text \<open>
  \<open>handleWinEscHotkey\<close>: \<open>now\<close> is \<open>Date.now()\<close>, \<open>lastCall\<close> the variable
  \<open>lastHotkeyCallTime\<close>, \<open>win\<close> the answers of the three window queries. The result is the
  new \<open>lastHotkeyCallTime\<close> and the window command issued, if any.
\<close>

definition handleWinEscHotkey ::
  "int \<Rightarrow> hotkey_mode \<Rightarrow> window_state \<Rightarrow> int \<Rightarrow> int \<times> window_command option" where
  "handleWinEscHotkey now mode win lastCall =
     (if now - lastCall < HOTKEY_DEBOUNCE_MS then (lastCall, None)
      else if mode \<noteq> overlay_call then (now, None)
      else if isMinimized win \<or> \<not> isVisible win then (now, Some ShowWindowOverlay)
      else if isFocused win then (now, Some HideWindowAndRestoreFocus)
      else (now, Some SetFocus))"

text \<open>
  The two sources: the Win+Esc branch of \<open>handleKeyDown\<close> and the
  \<open>show_window_requested\<close> listener. Both call the handler only in overlay mode.
\<close>

datatype trigger_source = InWindowWinEsc | ShowWindowRequested

record trigger =
  trig_source :: trigger_source
  trig_time :: int
  trig_mode :: hotkey_mode
  trig_window :: window_state

definition fire :: "trigger \<Rightarrow> int \<Rightarrow> int \<times> window_command option" where
  "fire t lastCall =
     (case trig_source t of
        InWindowWinEsc \<Rightarrow>
          (if trig_mode t = overlay_call then handleWinEscHotkey (trig_time t) (trig_mode t) (trig_window t) lastCall
           else (lastCall, None))
      | ShowWindowRequested \<Rightarrow>
          (if trig_mode t = overlay_call then handleWinEscHotkey (trig_time t) (trig_mode t) (trig_window t) lastCall
           else (lastCall, None)))"

fun fire_all :: "trigger list \<Rightarrow> int \<Rightarrow> window_command option list" where
  "fire_all [] lastCall = []"
| "fire_all (t # ts) lastCall =
     (case fire t lastCall of (lastCall', cmd) \<Rightarrow> cmd # fire_all ts lastCall')"

definition focused_window :: window_state where
  "focused_window = \<lparr> isFocused = True, isVisible = True, isMinimized = False \<rparr>"

definition minimized_window :: window_state where
  "minimized_window = \<lparr> isFocused = False, isVisible = True, isMinimized = True \<rparr>"

definition overlay_trigger :: "trigger_source \<Rightarrow> int \<Rightarrow> window_state \<Rightarrow> trigger" where
  "overlay_trigger src t win =
     \<lparr> trig_source = src, trig_time = t, trig_mode = overlay_call, trig_window = win \<rparr>"

section \<open>Continuous-play segmenter\<close>

text \<open>
  The playback controls hold the store, the flag \<open>isProcessingSpeech\<close> and the callbacks
  handed to \<open>nextTick\<close>, each of which assigns a remaining text to \<open>interceptedText\<close>.
\<close>

record controls =
  the_store :: store
  isProcessingSpeech :: bool
  nextTickQueue :: "jsstring list"

text \<open>The index of the first match of \<open>/[.?!]/\<close>.\<close>

definition is_terminator :: "jschar \<Rightarrow> bool" where
  "is_terminator c = (c = 46 \<or> c = 63 \<or> c = 33)"

definition match_terminator :: "jsstring \<Rightarrow> nat option" where
  "match_terminator text = findIndex is_terminator text"

text \<open>
  The watcher on \<open>interceptedText\<close>. It returns the controls and the text handed to
  \<open>enqueue_tts\<close>, if any.
\<close>

definition watch_interceptedText ::
  "jsstring \<Rightarrow> nat \<Rightarrow> jsstring \<Rightarrow> controls \<Rightarrow> controls \<times> jsstring option" where
  "watch_interceptedText newText now rnd c =
     (if \<not> continuousPlay (the_store c) \<or> newText = [] \<or> isPlaying (the_store c)
         \<or> isProcessingSpeech c
      then (c, None)
      else
        (case match_terminator newText of
           Some index \<Rightarrow>
             (let idx = index + 1;
                  toSpeak = take idx newText;
                  remaining = drop idx newText;
                  (s', tempId, spoken) = speakTextWithHistory toSpeak now rnd (the_store c)
              in (c\<lparr> isProcessingSpeech := True,
                     nextTickQueue := nextTickQueue c @ [remaining],
                     the_store := s' \<rparr>, Some spoken))
         | None \<Rightarrow> (c, None)))"

definition run_nextTick :: "controls \<Rightarrow> controls" where
  "run_nextTick c =
     c\<lparr> the_store := foldl (\<lambda>s remaining. s\<lparr>interceptedText := remaining\<rparr>)
                         (the_store c) (nextTickQueue c),
        nextTickQueue := [] \<rparr>"

text \<open>The 100 ms timer that lowers the flag.\<close>

definition cooldown_elapsed :: "controls \<Rightarrow> controls" where
  "cooldown_elapsed c = c\<lparr>isProcessingSpeech := False\<rparr>"

text \<open>
  \<open>handlePlay\<close>, the manual trigger. The text is read before \<open>await nextTick()\<close> and the
  captured value is used after it.
\<close>

definition handlePlay :: "nat \<Rightarrow> jsstring \<Rightarrow> store \<Rightarrow> store \<times> jsstring option" where
  "handlePlay now rnd s =
     (let text = interceptedText s in
      if text = [] then (s, None)
      else if continuousPlay s then
        (case match_terminator text of
           Some index \<Rightarrow>
             (let idx = index + 1;
                  toSpeak = take idx text;
                  remaining = drop idx text;
                  (s', tempId, spoken) =
                     speakTextWithHistory toSpeak now rnd (s\<lparr>interceptedText := remaining\<rparr>)
              in (s', Some spoken))
         | None \<Rightarrow>
             (let (s', tempId, spoken) =
                     speakTextWithHistory text now rnd (s\<lparr>interceptedText := []\<rparr>)
              in (s', Some spoken)))
      else
        (let (s', tempId, spoken) =
                speakTextWithHistory text now rnd (s\<lparr>interceptedText := []\<rparr>)
         in (s', Some spoken)))"

definition continuous_controls :: "jsstring \<Rightarrow> controls" where
  "continuous_controls text =
     \<lparr> the_store = initial_store\<lparr>continuousPlay := True, interceptedText := text\<rparr>,
       isProcessingSpeech = False, nextTickQueue = [] \<rparr>"

definition playing_controls :: "jsstring \<Rightarrow> controls" where
  "playing_controls text =
     \<lparr> the_store = initial_store\<lparr>continuousPlay := True, isPlaying := True,
                                   interceptedText := text\<rparr>,
       isProcessingSpeech = False, nextTickQueue = [] \<rparr>"

section \<open>Evaluation of concrete runs\<close>

lemmas string_defs = js_def startsWith_def slice_0_minus1_def slice_from_def
  toLowerCase_def toLowerCase_unit_def toUpperCase_def toUpperCase_unit_def

lemmas key_defs = sample_key_def blocking_store_def initial_store_def
  processInterceptedKey_def append_pending_def by_layout_def
  scheduleTextUpdate_def flushTextUpdate_def intended_text_def

lemmas delivery_defs = run_def on_key_intercepted_def fetchKeys_begin_def
  fetchKeys_resume_def process_all_def once_in_seq_order_def

section \<open>Key translation\<close>

lemma process_backspace:
  "key_name key = js ''Backspace'' \<Longrightarrow>
   processInterceptedKey key s =
     s\<lparr> interceptedText := butlast (interceptedText s), pendingTextUpdate := [] \<rparr>"
  by (simp add: processInterceptedKey_def js_def startsWith_def slice_0_minus1_def)

lemma single_not_special:
  "\<not> startsWith [c] (js ''Win+Esc'')" "js ''Win+Esc'' \<noteq> []"
  "[c] \<noteq> js ''Backspace''" "[c] \<noteq> js ''Enter''" "[c] \<noteq> js ''Space''" "[c] \<noteq> js ''Tab''"
  "[c] \<noteq> js ''Comma''" "[c] \<noteq> js ''Period''" "[c] \<noteq> js ''Slash''" "[c] \<noteq> js ''Semicolon''"
  "[c] \<noteq> js ''Quote''" "[c] \<noteq> js ''Backtick''" "[c] \<noteq> js ''Left Bracket''"
  "[c] \<noteq> js ''Right Bracket''" "[c] \<noteq> js ''Backslash''" "[c] \<noteq> js ''Minus''"
  "[c] \<noteq> js ''Equals''" "\<not> startsWith [c] (js ''Digit '')"
  by (simp_all add: js_def startsWith_def)

lemma process_single:
  "key_name key = [c] \<Longrightarrow>
   processInterceptedKey key s =
     append_pending
       [caps_fold (capsLock s) (if inputLanguage s = js ''ru'' then ruLayout_or c else c)] s"
  by (simp add: processInterceptedKey_def single_not_special caps_fold_def
      toUpperCase_def toLowerCase_def Let_def)

lemma letter_cases:
  assumes "is_letter c"
  shows "c \<in> set (map fst ruLayout)"
  using assms unfolding is_letter_def ruLayout_def
  by simp arith

lemma letter_in_table:
  assumes "is_letter c"
  shows "\<exists>r. map_of ruLayout c = Some r"
proof -
  from letter_cases[OF assms] have "c \<in> dom (map_of ruLayout)"
    by (simp only: dom_map_of_conv_image_fst set_map)
  then show ?thesis by blast
qed

text \<open>
  Claim C9. A key whose name is a single Latin letter appends one character to the
  pending buffer and changes nothing else. Under the \<open>ru\<close> layout the character is the
  entry of the \<open>ruLayout\<close> table for the letter (every letter has one), under the \<open>en\<close>
  layout it is the letter itself; in both cases the substituted character is then upper-cased
  when \<open>capsLock\<close> is set and lower-cased when it is not. Nothing but the key name, the
  layout and \<open>capsLock\<close> enters the result: the key event carries no shift state.
\<close>

theorem letter_key_translation:
  assumes "is_letter c" and "key_name key = [c]"
  shows "(inputLanguage s = js ''ru'' \<longrightarrow>
            (\<exists>r. map_of ruLayout c = Some r \<and>
                 processInterceptedKey key s =
                   s\<lparr>pendingTextUpdate := pendingTextUpdate s @ [caps_fold (capsLock s) r]\<rparr>)) \<and>
         (inputLanguage s = js ''en'' \<longrightarrow>
            processInterceptedKey key s =
              s\<lparr>pendingTextUpdate := pendingTextUpdate s @ [caps_fold (capsLock s) c]\<rparr>)"
proof (intro conjI impI)
  assume ru: "inputLanguage s = js ''ru''"
  from letter_in_table[OF assms(1)] obtain r where r: "map_of ruLayout c = Some r" ..
  then have "ruLayout_or c = r" by (simp add: ruLayout_or_def)
  with ru process_single[OF assms(2), of s] r
  show "\<exists>r. map_of ruLayout c = Some r \<and>
          processInterceptedKey key s =
            s\<lparr>pendingTextUpdate := pendingTextUpdate s @ [caps_fold (capsLock s) r]\<rparr>"
    by (simp add: append_pending_def)
next
  assume en: "inputLanguage s = js ''en''"
  have "js ''en'' \<noteq> js ''ru''" by (simp add: js_def)
  with en process_single[OF assms(2), of s]
  show "processInterceptedKey key s =
          s\<lparr>pendingTextUpdate := pendingTextUpdate s @ [caps_fold (capsLock s) c]\<rparr>"
    by (simp add: append_pending_def)
qed

theorem letter_key_translation_witness:
  "is_letter 81 \<and>
   pendingTextUpdate (processInterceptedKey (sample_key 0 [81])
      (initial_store\<lparr>inputLanguage := js ''ru'', capsLock := True\<rparr>)) = [1049] \<and>
   pendingTextUpdate (processInterceptedKey (sample_key 0 [81]) initial_store) = [113]"
proof -
  have l: "is_letter 81" by (simp add: is_letter_def)
  have k: "key_name (sample_key 0 [81]) = [81]" by (simp add: sample_key_def)
  have t: "map_of ruLayout 81 = Some 1049" by (simp add: ruLayout_def)
  have ru: "inputLanguage (initial_store\<lparr>inputLanguage := js ''ru'', capsLock := True\<rparr>) = js ''ru''"
    by simp
  have en: "inputLanguage initial_store = js ''en''" by (simp add: initial_store_def)
  from letter_key_translation[OF l k, of "initial_store\<lparr>inputLanguage := js ''ru'', capsLock := True\<rparr>"] ru t
  have a: "pendingTextUpdate (processInterceptedKey (sample_key 0 [81])
      (initial_store\<lparr>inputLanguage := js ''ru'', capsLock := True\<rparr>)) = [1049]"
    by (simp add: initial_store_def caps_fold_def toUpperCase_unit_def)
  from letter_key_translation[OF l k, of initial_store] en
  have b: "pendingTextUpdate (processInterceptedKey (sample_key 0 [81]) initial_store) = [113]"
    by (simp add: initial_store_def caps_fold_def toLowerCase_unit_def)
  from l a b show ?thesis by simp
qed

text \<open>
  The case of the letter in the key name does not matter either: the table maps the two
  cases of a letter to the two cases of one Cyrillic letter, and the folding follows.
\<close>

lemma letter_case_irrelevant:
  assumes "is_letter c"
  shows "caps_fold caps (ruLayout_or (toLowerCase_unit c)) = caps_fold caps (ruLayout_or c) \<and>
         caps_fold caps (toLowerCase_unit c) = caps_fold caps c"
proof -
  from letter_cases[OF assms] have "c \<in> fst ` set ruLayout" by simp
  then obtain r where "(c, r) \<in> set ruLayout" by auto
  then show ?thesis
    unfolding ruLayout_def
    by (simp, elim disjE)
       (simp_all add: ruLayout_or_def caps_fold_def toLowerCase_unit_def toUpperCase_unit_def
          ruLayout_def)
qed

text \<open>
  Claim C8, as stated, at a concrete state. The composed text is \<open>ab\<close> and the pending
  buffer holds \<open>c\<close>, so the text typed so far is \<open>abc\<close>. Removing the most recently
  typed character would leave \<open>ab\<close>; processing Backspace leaves \<open>a\<close>.
\<close>

theorem backspace_drops_pending_and_composed:
  "intended_text (processInterceptedKey (sample_key 3 (js ''Backspace''))
      (initial_store\<lparr>interceptedText := js ''ab'', pendingTextUpdate := js ''c''\<rparr>)) = js ''a'' \<and>
   intended_text (processInterceptedKey (sample_key 3 (js ''Backspace''))
      (initial_store\<lparr>interceptedText := js ''ab'', pendingTextUpdate := js ''c''\<rparr>))
     \<noteq> butlast (intended_text
          (initial_store\<lparr>interceptedText := js ''ab'', pendingTextUpdate := js ''c''\<rparr>))"
  by (simp add: key_defs string_defs)

text \<open>
  Claim C8, amended. Processing a Backspace key takes effect at once, without waiting for
  the flush: it removes the last character of the composed text (none if it is empty) and
  empties the pending buffer. When the pending buffer is empty this removes exactly the
  most recently typed character.
\<close>

theorem backspace_immediate:
  assumes "key_name key = js ''Backspace''"
  shows "processInterceptedKey key s =
           s\<lparr> interceptedText := butlast (interceptedText s), pendingTextUpdate := [] \<rparr> \<and>
         (pendingTextUpdate s = [] \<longrightarrow>
            intended_text (processInterceptedKey key s) = butlast (intended_text s))"
  using process_backspace[OF assms, of s] by (simp add: intended_text_def)

theorem backspace_immediate_witness:
  "key_name (sample_key 2 (js ''Backspace'')) = js ''Backspace'' \<and>
   pendingTextUpdate (initial_store\<lparr>interceptedText := js ''ab''\<rparr>) = [] \<and>
   intended_text (processInterceptedKey (sample_key 2 (js ''Backspace''))
      (initial_store\<lparr>interceptedText := js ''ab''\<rparr>)) = js ''a''"
proof -
  have k: "key_name (sample_key 2 (js ''Backspace'')) = js ''Backspace''"
    by (simp add: sample_key_def)
  have p: "pendingTextUpdate (initial_store\<lparr>interceptedText := js ''ab''\<rparr>) = []"
    by (simp add: initial_store_def)
  from backspace_immediate[OF k, of "initial_store\<lparr>interceptedText := js ''ab''\<rparr>"] p
  have "intended_text (processInterceptedKey (sample_key 2 (js ''Backspace''))
      (initial_store\<lparr>interceptedText := js ''ab''\<rparr>)) = js ''a''"
    by (simp add: intended_text_def initial_store_def js_def)
  with k p show ?thesis by simp
qed

section \<open>Push and pull delivery\<close>

text \<open>
  Claim C1, at a concrete interleaving. Blocking is enabled and nothing has been applied.
  A pull starts; while it awaits the backend, the event with \<open>seq_num\<close> 0 (key \<open>A\<close>) is
  pushed; the pull then completes with that same event; a frame flushes the buffer. The
  composed text is \<open>aa\<close>, whereas applying the one event once gives \<open>a\<close>.
\<close>

theorem duplicate_delivery_applied_twice:
  "interceptedText
     (run [PullBegin, Push (sample_key 0 [65]), PullResume (Inr [sample_key 0 [65]]), Frame]
        blocking_store) = js ''aa'' \<and>
   once_in_seq_order [sample_key 0 [65], sample_key 0 [65]] blocking_store = js ''a''"
  by (simp add: delivery_defs key_defs string_defs Let_def)

text \<open>
  The same happens without a pull in flight: a pull completes with the event 0, and the
  push of the event 0 arrives afterwards, at the watermark. The listener translates it again.
\<close>

lemma late_push_applied_again:
  "interceptedText
     (run [PullBegin, PullResume (Inr [sample_key 0 [65]]), Frame, Push (sample_key 0 [65]), Frame]
        blocking_store) = js ''aa''"
  by (simp add: delivery_defs key_defs string_defs Let_def)

text \<open>
  The push listener never lowers the watermark: it takes the maximum, and translating
  the key leaves the watermark alone.
\<close>

lemma process_keeps_watermark:
  "lastProcessedSeqNum (processInterceptedKey key s) = lastProcessedSeqNum s"
  by (simp add: processInterceptedKey_def append_pending_def Let_def)

lemma push_keeps_watermark_monotone:
  "lastProcessedSeqNum s \<le> lastProcessedSeqNum (on_key_intercepted key s)"
  by (simp add: on_key_intercepted_def scheduleTextUpdate_def process_keeps_watermark Let_def)

text \<open>
  Claim C2, at a concrete interleaving. A pull starts with nothing applied; the events
  0 and 1 are pushed during its await, which raises the watermark to 1; the pull completes
  with the event 0 alone and assigns the watermark 0.
\<close>

theorem pull_lowers_watermark:
  "lastProcessedSeqNum
     (run [PullBegin, Push (sample_key 0 [65]), Push (sample_key 1 [66])] blocking_store) = 1 \<and>
   lastProcessedSeqNum
     (run [PullBegin, Push (sample_key 0 [65]), Push (sample_key 1 [66]),
           PullResume (Inr [sample_key 0 [65]])] blocking_store) = 0"
  by (simp add: delivery_defs key_defs string_defs Let_def)

section \<open>TTS history\<close>


lemma findIndex_None: "findIndex P xs = None \<longleftrightarrow> (\<forall>x\<in>set xs. \<not> P x)"
  by (induction xs) auto

lemma findIndex_Some:
  "findIndex P xs = Some n \<longleftrightarrow> n < length xs \<and> P (xs ! n) \<and> (\<forall>j<n. \<not> P (xs ! j))"
proof (induction xs arbitrary: n)
  case Nil
  then show ?case by simp
next
  case (Cons x xs)
  show ?case
  proof (cases "P x")
    case True
    then show ?thesis by (cases n) auto
  next
    case False
    show ?thesis
    proof (cases n)
      case 0
      with False show ?thesis by auto
    next
      case (Suc m)
      have "(\<forall>j<Suc m. \<not> P ((x # xs) ! j)) \<longleftrightarrow> (\<forall>j<m. \<not> P (xs ! j))"
        using False by (auto simp: less_Suc_eq_0_disj)
      with False Suc Cons.IH[of m] show ?thesis by auto
    qed
  qed
qed

lemma foldl_snoc_map: "foldl (\<lambda>acc x. acc @ [g x]) acc xs = acc @ map g xs"
  by (induction xs arbitrary: acc) simp_all

lemma foldl_snoc_filter:
  "foldl (\<lambda>acc x. if P x then acc @ [x] else acc) acc xs = acc @ filter P xs"
  by (induction xs arbitrary: acc) simp_all

lemma serverMap_fold_None:
  "foldl (\<lambda>m msg. m(msg_id msg \<mapsto> msg)) m0 S k = None \<longleftrightarrow>
     m0 k = None \<and> k \<notin> msg_id ` set S"
  by (induction S arbitrary: m0) auto

lemma serverMap_of_None: "serverMap_of S k = None \<longleftrightarrow> k \<notin> msg_id ` set S"
  by (simp add: serverMap_of_def serverMap_fold_None)

lemma merge_server_map: "merge_server L S = map (with_local_status L) S"
proof -
  have "(\<lambda>mergedHistory serverMsg.
              (case find (\<lambda>m. msg_id m = msg_id serverMsg) L of
                 Some localMsg \<Rightarrow> mergedHistory @ [serverMsg\<lparr>status := status localMsg\<rparr>]
               | None \<Rightarrow> mergedHistory @ [serverMsg]))
       = (\<lambda>acc x. acc @ [with_local_status L x])"
    by (auto simp: fun_eq_iff with_local_status_def split: option.splits)
  then show ?thesis
    by (simp add: merge_server_def foldl_snoc_map)
qed

lemma merged_history:
  "ttsHistory (fetchTtsHistory_resume (Inr S) s) =
     map (with_local_status (ttsHistory s)) S @
     filter (\<lambda>lm. startsWith (msg_id lm) (js ''temp-'') \<and> msg_id lm \<notin> msg_id ` set S)
       (ttsHistory s)"
proof -
  have f: "filter (\<lambda>x. serverMap_of S (msg_id x) = None \<and> startsWith (msg_id x) (js ''temp-''))
             (ttsHistory s)
         = filter (\<lambda>lm. startsWith (msg_id lm) (js ''temp-'') \<and> msg_id lm \<notin> msg_id ` set S)
             (ttsHistory s)"
    by (rule filter_cong[OF refl]) (auto simp: serverMap_of_None)
  show ?thesis
    by (simp add: fetchTtsHistory_resume_def merge_server_map merge_optimistic_def
        foldl_snoc_filter f)
qed

lemma with_local_status_id: "msg_id (with_local_status L sm) = msg_id sm"
  by (simp add: with_local_status_def split: option.splits)

text \<open>
  Claim C10. After a successful refresh the history is the server's list in the server's
  order, each entry with the status of the first local entry of the same id when there
  is one and otherwise as the server sent it, followed at the back by the local entries
  whose id starts with \<open>temp-\<close> and is not an id of the server's list, in their local
  order. A local entry whose id is not provisional and not in the server's list is
  dropped: no entry of the merged history carries its id.
\<close>

theorem fetchTtsHistory_merge:
  "ttsHistory (fetchTtsHistory_resume (Inr serverHistory) s) =
     map (\<lambda>sm. case find (\<lambda>m. msg_id m = msg_id sm) (ttsHistory s) of
                  Some lm \<Rightarrow> sm\<lparr>status := status lm\<rparr>
                | None \<Rightarrow> sm) serverHistory @
     filter (\<lambda>lm. startsWith (msg_id lm) (js ''temp-'') \<and>
                   msg_id lm \<notin> msg_id ` set serverHistory) (ttsHistory s) \<and>
   (\<forall>lm \<in> set (ttsHistory s).
      \<not> startsWith (msg_id lm) (js ''temp-'') \<and> msg_id lm \<notin> msg_id ` set serverHistory \<longrightarrow>
      msg_id lm \<notin> msg_id ` set (ttsHistory (fetchTtsHistory_resume (Inr serverHistory) s)))"
proof (intro conjI ballI impI)
  show "ttsHistory (fetchTtsHistory_resume (Inr serverHistory) s) =
     map (\<lambda>sm. case find (\<lambda>m. msg_id m = msg_id sm) (ttsHistory s) of
                  Some lm \<Rightarrow> sm\<lparr>status := status lm\<rparr>
                | None \<Rightarrow> sm) serverHistory @
     filter (\<lambda>lm. startsWith (msg_id lm) (js ''temp-'') \<and>
                   msg_id lm \<notin> msg_id ` set serverHistory) (ttsHistory s)"
    using merged_history[of serverHistory s]
    by (simp add: with_local_status_def[abs_def])
next
  fix lm
  assume "lm \<in> set (ttsHistory s)"
    and a: "\<not> startsWith (msg_id lm) (js ''temp-'') \<and> msg_id lm \<notin> msg_id ` set serverHistory"
  show "msg_id lm \<notin> msg_id ` set (ttsHistory (fetchTtsHistory_resume (Inr serverHistory) s))"
  proof
    assume "msg_id lm \<in> msg_id ` set (ttsHistory (fetchTtsHistory_resume (Inr serverHistory) s))"
    then obtain m where m: "m \<in> set (ttsHistory (fetchTtsHistory_resume (Inr serverHistory) s))"
      and e: "msg_id m = msg_id lm" by auto
    from m consider
        (srv) sm where "sm \<in> set serverHistory" "m = with_local_status (ttsHistory s) sm"
      | (loc) "startsWith (msg_id m) (js ''temp-'')"
      by (auto simp: merged_history)
    then show False
    proof cases
      case srv
      with e a show False by (auto simp: with_local_status_id image_iff)
    next
      case loc
      with e a show False by simp
    qed
  qed
qed

theorem fetchTtsHistory_merge_witness:
  "ttsHistory (fetchTtsHistory_resume (Inr server_sample) (initial_store\<lparr>ttsHistory := local_sample\<rparr>))
     = [sample_msg (js ''a'') playing, sample_msg (js ''b'') completed,
        sample_msg (js ''temp-1-x'') queued] \<and>
   js ''old'' \<notin> msg_id ` set (ttsHistory
      (fetchTtsHistory_resume (Inr server_sample) (initial_store\<lparr>ttsHistory := local_sample\<rparr>)))"
proof -
  have h: "ttsHistory (initial_store\<lparr>ttsHistory := local_sample\<rparr>) = local_sample" by simp
  note t = fetchTtsHistory_merge[of server_sample "initial_store\<lparr>ttsHistory := local_sample\<rparr>",
      unfolded h]
  from t have a: "ttsHistory (fetchTtsHistory_resume (Inr server_sample)
        (initial_store\<lparr>ttsHistory := local_sample\<rparr>))
     = [sample_msg (js ''a'') playing, sample_msg (js ''b'') completed,
        sample_msg (js ''temp-1-x'') queued]"
    by (simp add: local_sample_def server_sample_def sample_msg_def js_def startsWith_def)
  have "sample_msg (js ''old'') completed \<in> set local_sample"
    by (simp add: local_sample_def)
  moreover have "\<not> startsWith (msg_id (sample_msg (js ''old'') completed)) (js ''temp-'') \<and>
      msg_id (sample_msg (js ''old'') completed) \<notin> msg_id ` set server_sample"
    by (simp add: server_sample_def sample_msg_def js_def startsWith_def)
  ultimately have "msg_id (sample_msg (js ''old'') completed) \<notin> msg_id ` set (ttsHistory
      (fetchTtsHistory_resume (Inr server_sample) (initial_store\<lparr>ttsHistory := local_sample\<rparr>)))"
    using t by blast
  then have b: "js ''old'' \<notin> msg_id ` set (ttsHistory
      (fetchTtsHistory_resume (Inr server_sample) (initial_store\<lparr>ttsHistory := local_sample\<rparr>)))"
    by (simp add: sample_msg_def)
  from a b show ?thesis by simp
qed




lemma findMessage_unknown_Some:
  assumes "\<forall>m\<in>set h. msg_id m \<noteq> i" and "findIndex is_temp_pending h = Some n"
  shows "assign_status st (findMessage i h) = h[n := (h ! n)\<lparr>msg_id := i, status := st\<rparr>]"
proof -
  from assms(1) have "findIndex (\<lambda>m. msg_id m = i) h = None"
    by (simp add: findIndex_None)
  moreover from assms(2) have "n < length h" by (simp add: findIndex_Some)
  ultimately show ?thesis using assms(2)
    by (simp add: findMessage_def assign_status_def)
qed

lemma findMessage_unknown_None:
  assumes "\<forall>m\<in>set h. msg_id m \<noteq> i" and "findIndex is_temp_pending h = None"
  shows "assign_status st (findMessage i h) = h"
proof -
  from assms(1) have "findIndex (\<lambda>m. msg_id m = i) h = None"
    by (simp add: findIndex_None)
  with assms(2) show ?thesis
    by (simp add: findMessage_def assign_status_def)
qed

lemmas handler_defs = on_tts_started_def on_tts_completed_def on_tts_failed_def
  on_tts_cancelled_def showToast_def

text \<open>
  Claim C5. The history is kept newest first (an enqueue inserts at the front, a refresh
  keeps the relative order of provisional entries), so the newest entry with a property is
  the one at the least position. When no local entry has the id of a status event, each of
  the four handlers rewrites exactly the first entry whose id starts with \<open>temp-\<close> and
  whose status is \<open>queued\<close> or \<open>playing\<close>: the entry takes the pushed id and the
  event's status (\<open>playing\<close> for started, \<open>completed\<close> for the other three), and every
  other entry is unchanged. When there is no such entry the history is unchanged.
\<close>

theorem unknown_id_event_goes_to_newest_provisional:
  assumes "\<forall>m\<in>set (ttsHistory s). msg_id m \<noteq> i"
  shows "(\<forall>n. n < length (ttsHistory s) \<and> is_temp_pending (ttsHistory s ! n) \<and>
              (\<forall>j<n. \<not> is_temp_pending (ttsHistory s ! j)) \<longrightarrow>
            ttsHistory (on_tts_started i s) =
              (ttsHistory s)[n := (ttsHistory s ! n)\<lparr>msg_id := i, status := playing\<rparr>] \<and>
            ttsHistory (on_tts_completed i s) =
              (ttsHistory s)[n := (ttsHistory s ! n)\<lparr>msg_id := i, status := completed\<rparr>] \<and>
            ttsHistory (on_tts_failed i err s) =
              (ttsHistory s)[n := (ttsHistory s ! n)\<lparr>msg_id := i, status := completed\<rparr>] \<and>
            ttsHistory (on_tts_cancelled i s) =
              (ttsHistory s)[n := (ttsHistory s ! n)\<lparr>msg_id := i, status := completed\<rparr>]) \<and>
         ((\<forall>m\<in>set (ttsHistory s). \<not> is_temp_pending m) \<longrightarrow>
            ttsHistory (on_tts_started i s) = ttsHistory s \<and>
            ttsHistory (on_tts_completed i s) = ttsHistory s \<and>
            ttsHistory (on_tts_failed i err s) = ttsHistory s \<and>
            ttsHistory (on_tts_cancelled i s) = ttsHistory s)"
proof (intro conjI allI impI)
  fix n
  assume "n < length (ttsHistory s) \<and> is_temp_pending (ttsHistory s ! n) \<and>
              (\<forall>j<n. \<not> is_temp_pending (ttsHistory s ! j))"
  then have f: "findIndex is_temp_pending (ttsHistory s) = Some n"
    by (simp add: findIndex_Some)
  show "ttsHistory (on_tts_started i s) =
              (ttsHistory s)[n := (ttsHistory s ! n)\<lparr>msg_id := i, status := playing\<rparr>]"
    by (simp add: handler_defs findMessage_unknown_Some[OF assms f])
  show "ttsHistory (on_tts_completed i s) =
              (ttsHistory s)[n := (ttsHistory s ! n)\<lparr>msg_id := i, status := completed\<rparr>]"
    by (simp add: handler_defs findMessage_unknown_Some[OF assms f])
  show "ttsHistory (on_tts_failed i err s) =
              (ttsHistory s)[n := (ttsHistory s ! n)\<lparr>msg_id := i, status := completed\<rparr>]"
    by (simp add: handler_defs findMessage_unknown_Some[OF assms f])
  show "ttsHistory (on_tts_cancelled i s) =
              (ttsHistory s)[n := (ttsHistory s ! n)\<lparr>msg_id := i, status := completed\<rparr>]"
    by (simp add: handler_defs findMessage_unknown_Some[OF assms f])
next
  assume "\<forall>m\<in>set (ttsHistory s). \<not> is_temp_pending m"
  then have f: "findIndex is_temp_pending (ttsHistory s) = None"
    by (simp add: findIndex_None)
  show "ttsHistory (on_tts_started i s) = ttsHistory s"
    by (simp add: handler_defs findMessage_unknown_None[OF assms f])
  show "ttsHistory (on_tts_completed i s) = ttsHistory s"
    by (simp add: handler_defs findMessage_unknown_None[OF assms f])
  show "ttsHistory (on_tts_failed i err s) = ttsHistory s"
    by (simp add: handler_defs findMessage_unknown_None[OF assms f])
  show "ttsHistory (on_tts_cancelled i s) = ttsHistory s"
    by (simp add: handler_defs findMessage_unknown_None[OF assms f])
qed

theorem unknown_id_event_goes_to_newest_provisional_witness:
  "ttsHistory (on_tts_started (js ''k2'') (initial_store\<lparr>ttsHistory := race_history\<rparr>)) =
     [sample_msg (js ''k2'') playing, sample_msg (js ''temp-7-y'') queued,
      sample_msg (js ''k1'') completed] \<and>
   ttsHistory (on_tts_completed (js ''k2'')
      (initial_store\<lparr>ttsHistory := [sample_msg (js ''k1'') completed]\<rparr>)) =
     [sample_msg (js ''k1'') completed]"
proof -
  let ?s = "initial_store\<lparr>ttsHistory := race_history\<rparr>"
  let ?t = "initial_store\<lparr>ttsHistory := [sample_msg (js ''k1'') completed]\<rparr>"
  have u: "\<forall>m\<in>set (ttsHistory ?s). msg_id m \<noteq> js ''k2''"
    by (simp add: race_history_def sample_msg_def js_def)
  have n: "0 < length (ttsHistory ?s) \<and> is_temp_pending (ttsHistory ?s ! 0) \<and>
      (\<forall>j<0. \<not> is_temp_pending (ttsHistory ?s ! j))"
    by (simp add: race_history_def sample_msg_def is_temp_pending_def js_def startsWith_def)
  from unknown_id_event_goes_to_newest_provisional[OF u, where err = "js ''e''"] n
  have "ttsHistory (on_tts_started (js ''k2'') ?s) =
      (ttsHistory ?s)[0 := (ttsHistory ?s ! 0)\<lparr>msg_id := js ''k2'', status := playing\<rparr>]"
    by blast
  then have a: "ttsHistory (on_tts_started (js ''k2'') ?s) =
     [sample_msg (js ''k2'') playing, sample_msg (js ''temp-7-y'') queued,
      sample_msg (js ''k1'') completed]"
    by (simp add: race_history_def sample_msg_def)
  have v: "\<forall>m\<in>set (ttsHistory ?t). msg_id m \<noteq> js ''k2''"
    by (simp add: sample_msg_def js_def)
  have e: "\<forall>m\<in>set (ttsHistory ?t). \<not> is_temp_pending m"
    by (simp add: sample_msg_def is_temp_pending_def)
  from unknown_id_event_goes_to_newest_provisional[OF v, where err = "js ''e''"] e
  have "ttsHistory (on_tts_completed (js ''k2'') ?t) = ttsHistory ?t"
    by blast
  then have b: "ttsHistory (on_tts_completed (js ''k2'') ?t) = [sample_msg (js ''k1'') completed]"
    by simp
  from a b show ?thesis by simp
qed

lemma tempId_prefix: "startsWith (tempId_of now rnd) (js ''temp-'')"
  by (simp add: tempId_of_def startsWith_def js_def)







text \<open>
  The provisional id is minted from the clock and a random string. Were an older entry to
  carry the same id, the rollback would remove it too: the history had one entry before
  the call and has none after the rejection.
\<close>

lemma colliding_id_removes_older_entry:
  "ttsHistory (enqueue_rejected (tempId_of 5 (js ''r'')) (js ''no audio'')
     (fst (speakTextWithHistory (js ''Hi.'') 5 (js ''r'')
        (initial_store\<lparr>ttsHistory := [sample_msg (tempId_of 5 (js ''r'')) queued]\<rparr>)))) = []"
  by (simp add: speakTextWithHistory_def enqueue_rejected_def showToast_def sample_msg_def Let_def)



lemma playing_count_Cons:
  "playing_count (m # h) = (if status m = playing then 1 else 0) + playing_count h"
  by (simp add: playing_count_def)

lemma playing_count_update:
  "n < length h \<Longrightarrow>
   playing_count (h[n := x]) + (if status (h ! n) = playing then 1 else 0) =
   playing_count h + (if status x = playing then 1 else 0)"
proof (induction h arbitrary: n)
  case Nil
  then show ?case by simp
next
  case (Cons m h)
  show ?case
  proof (cases n)
    case 0
    then show ?thesis by (simp add: playing_count_Cons)
  next
    case (Suc k)
    with Cons.prems have "k < length h" by simp
    from Cons.IH[OF this] Suc show ?thesis by (simp add: playing_count_Cons)
  qed
qed

lemma playing_count_set_id:
  "n < length h \<Longrightarrow> playing_count (h[n := (h ! n)\<lparr>msg_id := i\<rparr>]) = playing_count h"
  using playing_count_update[of n h "(h ! n)\<lparr>msg_id := i\<rparr>"] by simp

lemma playing_count_filter: "playing_count (filter P h) \<le> playing_count h"
  by (induction h) (simp_all add: playing_count_def)

lemma findMessage_shape:
  "\<exists>h' r b. findMessage i h = (h', r, b) \<and> length h' = length h \<and>
     playing_count h' = playing_count h \<and> (\<forall>n. r = Some n \<longrightarrow> n < length h')"
proof (cases "findIndex (\<lambda>m. msg_id m = i) h")
  case (Some n)
  then have "n < length h" by (simp add: findIndex_Some)
  with Some show ?thesis by (auto simp: findMessage_def)
next
  case None
  show ?thesis
  proof (cases "findIndex is_temp_pending h")
    case (Some n)
    then have "n < length h" by (simp add: findIndex_Some)
    with None Some show ?thesis by (auto simp: findMessage_def playing_count_set_id)
  next
    case N: None
    with None show ?thesis by (auto simp: findMessage_def)
  qed
qed

lemma assign_completed_le:
  "playing_count (assign_status completed (findMessage i h)) \<le> playing_count h"
proof -
  from findMessage_shape[of i h] obtain h' r b where
    f: "findMessage i h = (h', r, b)" and pc: "playing_count h' = playing_count h"
    and r: "\<forall>n. r = Some n \<longrightarrow> n < length h'" by blast
  show ?thesis
  proof (cases r)
    case None
    with f pc show ?thesis by (simp add: assign_status_def)
  next
    case (Some n)
    with r have "n < length h'" by simp
    from playing_count_update[OF this, of "(h' ! n)\<lparr>status := completed\<rparr>"]
    have "playing_count (h'[n := (h' ! n)\<lparr>status := completed\<rparr>]) \<le> playing_count h'"
      by (simp split: if_splits)
    with f pc Some show ?thesis by (simp add: assign_status_def)
  qed
qed

lemma assign_playing_le:
  "playing_count (assign_status playing (findMessage i h)) \<le> Suc (playing_count h)"
proof -
  from findMessage_shape[of i h] obtain h' r b where
    f: "findMessage i h = (h', r, b)" and pc: "playing_count h' = playing_count h"
    and r: "\<forall>n. r = Some n \<longrightarrow> n < length h'" by blast
  show ?thesis
  proof (cases r)
    case None
    with f pc show ?thesis by (simp add: assign_status_def)
  next
    case (Some n)
    with r have "n < length h'" by simp
    from playing_count_update[OF this, of "(h' ! n)\<lparr>status := playing\<rparr>"]
    have "playing_count (h'[n := (h' ! n)\<lparr>status := playing\<rparr>]) \<le> Suc (playing_count h')"
      by (simp split: if_splits)
    with f pc Some show ?thesis by (simp add: assign_status_def)
  qed
qed

lemma enqueue_resolved_count:
  "playing_count (ttsHistory (enqueue_resolved t r s)) = playing_count (ttsHistory s)"
proof (cases "findIndex (\<lambda>m. msg_id m = t) (ttsHistory s)")
  case None
  then show ?thesis by (simp add: enqueue_resolved_def)
next
  case (Some n)
  then have "n < length (ttsHistory s)" by (simp add: findIndex_Some)
  with Some show ?thesis by (simp add: enqueue_resolved_def playing_count_set_id)
qed

lemma playing_count_statuses:
  "playing_count h = length (filter (\<lambda>st. st = playing) (map status h))"
  by (simp add: playing_count_def filter_map comp_def)

lemma playing_count_split:
  assumes "n < length h"
  shows "playing_count h =
           playing_count (take n h) + (if status (h ! n) = playing then 1 else 0) +
           playing_count (drop (Suc n) h)"
proof -
  from assms have "h = take n h @ (h ! n) # drop (Suc n) h"
    by (simp add: id_take_nth_drop)
  then have "playing_count h = playing_count (take n h @ (h ! n) # drop (Suc n) h)"
    by simp
  then show ?thesis by (simp add: playing_count_def)
qed

lemma playing_count_after_update:
  assumes "n < length h" and "map status h' = (map status h)[n := st]"
  shows "playing_count h' =
           playing_count (take n h) + (if st = playing then 1 else 0) +
           playing_count (drop (Suc n) h)"
proof -
  from assms(1) have "(map status h)[n := st] =
      map status (take n h) @ st # map status (drop (Suc n) h)"
    by (simp add: upd_conv_take_nth_drop take_map drop_map)
  with assms(2) show ?thesis by (simp add: playing_count_statuses)
qed

lemma statuses_after_event:
  "map status (assign_status st (findMessage i h)) =
     (case lands_on i h of None \<Rightarrow> map status h | Some n \<Rightarrow> (map status h)[n := st])"
proof (cases "findIndex (\<lambda>m. msg_id m = i) h")
  case (Some n)
  then show ?thesis
    by (simp add: findMessage_def assign_status_def lands_on_def map_update)
next
  case None
  then show ?thesis
    by (cases "findIndex is_temp_pending h")
       (simp_all add: findMessage_def assign_status_def lands_on_def map_update)
qed

lemma lands_on_bound: "lands_on i h = Some n \<Longrightarrow> n < length h"
  by (auto simp: lands_on_def findMessage_def findIndex_Some split: option.splits)

lemma started_exact:
  "single_active (on_tts_started i s) \<longleftrightarrow>
     (case lands_on i (ttsHistory s) of
        None \<Rightarrow> single_active s
      | Some n \<Rightarrow> playing_count (take n (ttsHistory s)) = 0 \<and>
                  playing_count (drop (Suc n) (ttsHistory s)) = 0)"
proof (cases "lands_on i (ttsHistory s)")
  case None
  with statuses_after_event[of playing i "ttsHistory s"]
  have "map status (ttsHistory (on_tts_started i s)) = map status (ttsHistory s)"
    by (simp add: on_tts_started_def)
  with None show ?thesis by (simp add: single_active_def playing_count_statuses)
next
  case (Some n)
  with statuses_after_event[of playing i "ttsHistory s"]
  have "map status (ttsHistory (on_tts_started i s)) = (map status (ttsHistory s))[n := playing]"
    by (simp add: on_tts_started_def)
  from playing_count_after_update[OF lands_on_bound[OF Some] this] Some
  show ?thesis by (simp add: single_active_def)
qed

lemma refresh_count:
  "playing_count (ttsHistory (fetchTtsHistory_resume (Inr S) s)) =
     playing_count (map (with_local_status (ttsHistory s)) S) +
     playing_count (filter (\<lambda>lm. startsWith (msg_id lm) (js ''temp-'') \<and>
                                  msg_id lm \<notin> set (map msg_id S)) (ttsHistory s))"
  by (simp add: merged_history playing_count_def)

lemma never_raises_le:
  assumes "never_raises op"
  shows "playing_count (ttsHistory (apply_op s op)) \<le> playing_count (ttsHistory s)"
proof (cases op)
  case (TtsStarted i)
  with assms show ?thesis by simp
next
  case (TtsCompleted i)
  with assign_completed_le[of i "ttsHistory s"] show ?thesis
    by (simp add: on_tts_completed_def)
next
  case (TtsFailed i err)
  with assign_completed_le[of i "ttsHistory s"] show ?thesis
    by (simp add: on_tts_failed_def showToast_def)
next
  case (TtsCancelled i)
  with assign_completed_le[of i "ttsHistory s"] show ?thesis
    by (simp add: on_tts_cancelled_def)
next
  case (Speak utterance n0 r0)
  then show ?thesis
    by (simp add: speakTextWithHistory_def Let_def playing_count_Cons)
next
  case (EnqueueResolved t r)
  then show ?thesis by (simp add: enqueue_resolved_count)
next
  case (EnqueueRejected t err)
  with playing_count_filter[of "\<lambda>m. msg_id m \<noteq> t" "ttsHistory s"] show ?thesis
    by (simp add: enqueue_rejected_def showToast_def)
next
  case (FetchHistory response)
  with assms show ?thesis
    by (cases response) (simp_all add: fetchTtsHistory_resume_def)
qed

lemma backend_respects_exact:
  assumes "single_active s"
  shows "backend_respects s op \<longleftrightarrow> single_active (apply_op s op)"
proof (cases "never_raises op")
  case True
  from never_raises_le[OF True, of s] assms have "single_active (apply_op s op)"
    by (simp add: single_active_def)
  moreover from True have "backend_respects s op" by (cases op rule: never_raises.cases) simp_all
  ultimately show ?thesis by simp
next
  case False
  then consider (start) i where "op = TtsStarted i" | (fetch) S where "op = FetchHistory (Inr S)"
    by (cases op rule: never_raises.cases) simp_all
  then show ?thesis
  proof cases
    case start
    with assms show ?thesis
      by (simp add: started_exact split: option.splits)
  next
    case fetch
    then show ?thesis by (simp add: single_active_def refresh_count)
  qed
qed

lemmas tts_eval = queued_pair_def playing_one_def initial_store_def sample_msg_def js_def
  run_ops_def on_tts_started_def on_tts_completed_def findMessage_def assign_status_def
  single_active_def playing_count_def is_temp_pending_def startsWith_def lands_on_def
  fetchTtsHistory_resume_def merge_server_def merge_optimistic_def serverMap_of_def
  with_local_status_def

text \<open>
  Claim C3, as stated, at two concrete sequences. Two entries are queued under durable
  ids: after \<open>tts:started\<close> for the first, one entry is playing, and \<open>tts:started\<close> for
  the second then leaves two entries playing. One entry \<open>k1\<close> is playing locally and a
  refresh returns \<open>k2\<close> as playing and \<open>k1\<close> as completed: the merge keeps the local
  status of \<open>k1\<close> and takes the server's status of \<open>k2\<close>, so two entries are playing.
\<close>

theorem second_start_breaks_single_active:
  "single_active (run_ops [TtsStarted (js ''k1'')] queued_pair) \<and>
   \<not> single_active (run_ops [TtsStarted (js ''k1''), TtsStarted (js ''k2'')] queued_pair) \<and>
   single_active playing_one \<and>
   \<not> single_active (run_ops
        [FetchHistory (Inr [sample_msg (js ''k2'') playing, sample_msg (js ''k1'') completed])]
        playing_one)"
  by (simp add: tts_eval)

text \<open>
  Claim C3, amended. The client keeps no count of its own: it mirrors the backend. The
  handlers of \<open>tts:completed\<close>, \<open>tts:failed\<close> and \<open>tts:cancelled\<close>, a failed refresh
  and the three steps of an enqueue never raise the number of \<open>playing\<close> entries, and
  \<open>tts:started\<close> raises it by at most one. From a state with at most one entry playing,
  \<open>tts:started\<close> keeps the invariant exactly when no entry other than the one it lands
  on is playing, and a refresh keeps it exactly when the server's entries, each with the
  local status where the id is known locally, and the local provisional entries the
  server does not list hold at most one \<open>playing\<close> entry between them. Every sequence of
  operations that meets these two conditions preserves the invariant.
\<close>

theorem single_active_preserved:
  "(never_raises op \<longrightarrow>
      playing_count (ttsHistory (apply_op s op)) \<le> playing_count (ttsHistory s)) \<and>
   playing_count (ttsHistory (on_tts_started i s)) \<le> Suc (playing_count (ttsHistory s)) \<and>
   (single_active s \<longrightarrow> (backend_respects s op \<longleftrightarrow> single_active (apply_op s op))) \<and>
   (single_active s \<and> respected_run s ops \<longrightarrow> single_active (run_ops ops s))"
proof (intro conjI impI)
  assume "never_raises op"
  then show "playing_count (ttsHistory (apply_op s op)) \<le> playing_count (ttsHistory s)"
    by (rule never_raises_le)
next
  show "playing_count (ttsHistory (on_tts_started i s)) \<le> Suc (playing_count (ttsHistory s))"
    using assign_playing_le[of i "ttsHistory s"] by (simp add: on_tts_started_def)
next
  assume "single_active s"
  then show "backend_respects s op \<longleftrightarrow> single_active (apply_op s op)"
    by (rule backend_respects_exact)
next
  assume "single_active s \<and> respected_run s ops"
  then have "single_active s" "respected_run s ops" by simp_all
  then show "single_active (run_ops ops s)"
  proof (induction ops arbitrary: s)
    case Nil
    then show ?case by (simp add: run_ops_def)
  next
    case (Cons op ops)
    from Cons.prems have "single_active (apply_op s op)" "respected_run (apply_op s op) ops"
      by (simp_all add: backend_respects_exact)
    from Cons.IH[OF this] show ?case by (simp add: run_ops_def)
  qed
qed

theorem single_active_preserved_witness:
  "single_active queued_pair \<and>
   respected_run queued_pair
     [TtsStarted (js ''k1''), TtsStarted (js ''k1''), TtsCompleted (js ''k1''),
      TtsStarted (js ''k2''),
      FetchHistory (Inr [sample_msg (js ''k2'') playing, sample_msg (js ''k1'') completed])] \<and>
   single_active (run_ops
     [TtsStarted (js ''k1''), TtsStarted (js ''k1''), TtsCompleted (js ''k1''),
      TtsStarted (js ''k2''),
      FetchHistory (Inr [sample_msg (js ''k2'') playing, sample_msg (js ''k1'') completed])]
     queued_pair)"
proof -
  let ?ops = "[TtsStarted (js ''k1''), TtsStarted (js ''k1''), TtsCompleted (js ''k1''),
      TtsStarted (js ''k2''),
      FetchHistory (Inr [sample_msg (js ''k2'') playing, sample_msg (js ''k1'') completed])]"
  have a: "single_active queued_pair" by (simp add: tts_eval)
  have b: "respected_run queued_pair ?ops"
    by (simp add: tts_eval)
  from single_active_preserved[of _ queued_pair _ ?ops] a b
  have "single_active (run_ops ?ops queued_pair)" by blast
  with a b show ?thesis by simp
qed

text \<open>
  The first refresh of an empty history that returns one playing entry meets the
  condition.
\<close>

lemma first_refresh_respected:
  "respected_run initial_store [FetchHistory (Inr [sample_msg (js ''k1'') playing])] \<and>
   single_active (run_ops [FetchHistory (Inr [sample_msg (js ''k1'') playing])] initial_store)"
  by (simp add: tts_eval)

section \<open>Hotkey debounce and segmenter\<close>


lemmas hotkey_eval = fire_def overlay_trigger_def focused_window_def minimized_window_def
  handleWinEscHotkey_def HOTKEY_DEBOUNCE_MS_def

text \<open>
  Claim C6, as stated, at a concrete sequence. A trigger at 1000 ms minimizes the window.
  A second at 1200 ms is ignored. A third at 1400 ms is 200 ms after the second, yet it
  is handled: the debounce measures from the last trigger that was handled, not from the
  last trigger that occurred.
\<close>

theorem trigger_after_ignored_trigger_is_handled:
  "fire_all [overlay_trigger InWindowWinEsc 1000 focused_window,
             overlay_trigger ShowWindowRequested 1200 minimized_window,
             overlay_trigger ShowWindowRequested 1400 minimized_window] 0
     = [Some HideWindowAndRestoreFocus, None, Some ShowWindowOverlay]"
  by (simp add: hotkey_eval)

lemma fire_overlay:
  "trig_mode t = overlay_call \<Longrightarrow>
   fire t lastCall = handleWinEscHotkey (trig_time t) overlay_call (trig_window t) lastCall"
  by (cases "trig_source t") (simp_all add: fire_def)

text \<open>
  Claim C6, amended. In overlay mode, for a pair of triggers from either source: when the
  first is handled (it comes at least 300 ms after the last handled trigger) and the second
  comes less than 300 ms after the first, the first issues one window command, the
  second is ignored and leaves the debounce time as it is, and the pair issues exactly
  one command.
\<close>

theorem debounced_pair_one_transition:
  assumes "trig_mode t1 = overlay_call" and "trig_mode t2 = overlay_call"
    and "HOTKEY_DEBOUNCE_MS \<le> trig_time t1 - lastCall"
    and "trig_time t2 - trig_time t1 < HOTKEY_DEBOUNCE_MS"
  shows "\<exists>cmd. fire t1 lastCall = (trig_time t1, Some cmd) \<and>
               fire t2 (trig_time t1) = (trig_time t1, None) \<and>
               fire_all [t1, t2] lastCall = [Some cmd, None]"
proof -
  from assms(3) have "\<exists>cmd. fire t1 lastCall = (trig_time t1, Some cmd)"
    unfolding fire_overlay[OF assms(1)] handleWinEscHotkey_def by auto
  then obtain cmd where a: "fire t1 lastCall = (trig_time t1, Some cmd)" ..
  from assms(4) have b: "fire t2 (trig_time t1) = (trig_time t1, None)"
    unfolding fire_overlay[OF assms(2)] handleWinEscHotkey_def by simp
  from a b have "fire_all [t1, t2] lastCall = [Some cmd, None]" by simp
  with a b show ?thesis by blast
qed

theorem debounced_pair_one_transition_witness:
  "fire_all [overlay_trigger InWindowWinEsc 1000 focused_window,
             overlay_trigger ShowWindowRequested 1100 focused_window] 0
     = [Some HideWindowAndRestoreFocus, None]"
proof -
  let ?t1 = "overlay_trigger InWindowWinEsc 1000 focused_window"
  let ?t2 = "overlay_trigger ShowWindowRequested 1100 focused_window"
  have m: "trig_mode ?t1 = overlay_call" "trig_mode ?t2 = overlay_call"
    by (simp_all add: overlay_trigger_def)
  have a: "HOTKEY_DEBOUNCE_MS \<le> trig_time ?t1 - 0"
    by (simp add: overlay_trigger_def HOTKEY_DEBOUNCE_MS_def)
  have b: "trig_time ?t2 - trig_time ?t1 < HOTKEY_DEBOUNCE_MS"
    by (simp add: overlay_trigger_def HOTKEY_DEBOUNCE_MS_def)
  from debounced_pair_one_transition[OF m a b] obtain cmd where
    c: "fire ?t1 0 = (trig_time ?t1, Some cmd)"
    and f: "fire_all [?t1, ?t2] 0 = [Some cmd, None]" by blast
  from c have "cmd = HideWindowAndRestoreFocus"
    by (simp add: hotkey_eval)
  with f show ?thesis by simp
qed

lemma match_terminator_first:
  "p < length text \<Longrightarrow> is_terminator (text ! p) \<Longrightarrow> \<forall>j<p. \<not> is_terminator (text ! j) \<Longrightarrow>
   match_terminator text = Some p"
  by (simp add: match_terminator_def findIndex_Some)

text \<open>
  Claim C7, as stated, at a concrete state. Continuous mode is on and the composed text is
  \<open>Hello world.\<close>, whose first terminator is at position 11, but \<open>isPlaying\<close> is set:
  the watcher dispatches nothing and leaves the controls as they are.
\<close>

theorem watcher_skips_while_playing:
  "continuousPlay (the_store (playing_controls (js ''Hello world.''))) \<and>
   match_terminator (js ''Hello world.'') = Some 11 \<and>
   watch_interceptedText (js ''Hello world.'') 5000 (js ''r'') (playing_controls (js ''Hello world.''))
     = (playing_controls (js ''Hello world.''), None)"
  by (simp add: playing_controls_def watch_interceptedText_def match_terminator_def
      is_terminator_def js_def)

text \<open>
  Claim C7, amended. With continuous mode on, \<open>isPlaying\<close> clear and no segment in its
  cooldown (\<open>isProcessingSpeech\<close> clear), a text whose first terminator is at position
  \<open>p\<close> makes the watcher dispatch \<open>text[0..p+1]\<close> as one utterance, add one history
  entry for it, and leave \<open>text[p+1..]\<close> as the composed text once the tick has run; the
  watcher run that this assignment triggers dispatches nothing. Manual play in continuous
  mode makes the same split whatever the two flags are.
\<close>

theorem segmenter_splits_at_first_terminator:
  assumes "continuousPlay (the_store c)" and "\<not> isPlaying (the_store c)"
    and "\<not> isProcessingSpeech c"
    and "p < length text" and "is_terminator (text ! p)"
    and "\<forall>j<p. \<not> is_terminator (text ! j)"
  shows "(case watch_interceptedText text now rnd c of
            (c', dispatched) \<Rightarrow>
              dispatched = Some (take (p + 1) text) \<and>
              map msg_text (ttsHistory (the_store c')) =
                take (p + 1) text # map msg_text (ttsHistory (the_store c)) \<and>
              interceptedText (the_store (run_nextTick c')) = drop (p + 1) text \<and>
              snd (watch_interceptedText (drop (p + 1) text) now' rnd' (run_nextTick c')) = None) \<and>
         (continuousPlay s \<and> interceptedText s = text \<longrightarrow>
            snd (handlePlay now rnd s) = Some (take (p + 1) text) \<and>
            interceptedText (fst (handlePlay now rnd s)) = drop (p + 1) text)"
proof (intro conjI impI)
  from assms(4) have ne: "text \<noteq> []" by auto
  note m = match_terminator_first[OF assms(4,5,6)]
  show "(case watch_interceptedText text now rnd c of
            (c', dispatched) \<Rightarrow>
              dispatched = Some (take (p + 1) text) \<and>
              map msg_text (ttsHistory (the_store c')) =
                take (p + 1) text # map msg_text (ttsHistory (the_store c)) \<and>
              interceptedText (the_store (run_nextTick c')) = drop (p + 1) text \<and>
              snd (watch_interceptedText (drop (p + 1) text) now' rnd' (run_nextTick c')) = None)"
    using assms(1,2,3) ne m
    by (simp add: watch_interceptedText_def speakTextWithHistory_def run_nextTick_def Let_def)
  assume "continuousPlay s \<and> interceptedText s = text"
  with ne m show "snd (handlePlay now rnd s) = Some (take (p + 1) text)"
    by (simp add: handlePlay_def speakTextWithHistory_def Let_def)
  from \<open>continuousPlay s \<and> interceptedText s = text\<close> ne m
  show "interceptedText (fst (handlePlay now rnd s)) = drop (p + 1) text"
    by (simp add: handlePlay_def speakTextWithHistory_def Let_def)
qed

theorem segmenter_splits_at_first_terminator_witness:
  "snd (watch_interceptedText (js ''Hello world.'') 5000 (js ''r'')
          (continuous_controls (js ''Hello world.''))) = Some (js ''Hello world.'') \<and>
   interceptedText (the_store (run_nextTick (fst
      (watch_interceptedText (js ''Hello world.'') 5000 (js ''r'')
          (continuous_controls (js ''Hello world.'')))))) = [] \<and>
   map msg_text (ttsHistory (the_store (fst
      (watch_interceptedText (js ''Hello world.'') 5000 (js ''r'')
          (continuous_controls (js ''Hello world.'')))))) = [js ''Hello world.'']"
proof -
  let ?text = "js ''Hello world.''"
  let ?c = "continuous_controls ?text"
  have c: "continuousPlay (the_store ?c)" "\<not> isPlaying (the_store ?c)" "\<not> isProcessingSpeech ?c"
    by (simp_all add: continuous_controls_def initial_store_def)
  have "findIndex is_terminator ?text = Some 11"
    by (simp add: js_def is_terminator_def)
  from iffD1[OF findIndex_Some this] have p: "11 < length ?text" "is_terminator (?text ! 11)"
    "\<forall>j<11. \<not> is_terminator (?text ! j)"
    by blast+
  have h: "ttsHistory (the_store ?c) = []"
    by (simp add: continuous_controls_def initial_store_def)
  have l: "take 12 ?text = ?text" "drop 12 ?text = []"
    by (simp_all add: js_def)
  from segmenter_splits_at_first_terminator[OF c p, where now = 5000 and rnd = "js ''r''"]
  show ?thesis
    by (simp add: case_prod_beta h l)
qed

end
